theory Spec2Isabelle
  imports Main
begin

section \<open>The parser type\<close>

text \<open>
  The module \<^verbatim>\<open>naive_parser_combinators\<close> declares
  \<^verbatim>\<open>Parser = Callable[[Sequence[TokenT], int], FrozenSet[Tuple[ValueT, int]]]\<close>:
  a parser takes the token sequence and the index where parsing begins and returns the
  set of all parses, each an output value paired with the index where that parse ended.

  The token sequence is a list, the index a Python integer (\<^typ>\<open>int\<close>, negative values
  included) and the frozen set a HOL set. A call that raises an exception instead of
  returning a set has the value \<^const>\<open>None\<close>; the only exception the module itself can
  raise is the \<^verbatim>\<open>IndexError\<close> of \<^verbatim>\<open>tokens[index]\<close>. The predicates and output functions
  that callers pass in are pure total functions, as their annotations
  \<^verbatim>\<open>Callable[[TokenT], bool]\<close> and \<^verbatim>\<open>Callable[[ValueT1], ValueT2]\<close> say.

  A HOL set holds two values apart exactly when they differ, and a HOL function returns
  the same value at every call. The parsers of the next two sections are therefore the
  module on values that are equal (\<^verbatim>\<open>==\<close>) only when they are the same value, returned by
  calls that create no object. Two later sections drop one of these conditions each:
  \<open>apply\<close> on values with a coarser equality, and \<open>either\<close> on parsers whose calls create
  objects.
\<close>

type_synonym ('t, 'v) parser = "'t list \<Rightarrow> int \<Rightarrow> ('v \<times> int) set option"

text \<open>
  Python's subscription \<^verbatim>\<open>tokens[index]\<close> on a sequence: an index from \<open>0\<close> up to the
  length reads from the front, an index from \<open>- length\<close> up to \<open>-1\<close> reads from the
  back, and everything else raises \<^verbatim>\<open>IndexError\<close>.
\<close>

definition getitem :: "'t list \<Rightarrow> int \<Rightarrow> 't option" where
  "getitem tokens index =
     (if 0 \<le> index \<and> index < int (length tokens) then Some (tokens ! nat index)
      else if index < 0 \<and> - int (length tokens) \<le> index
        then Some (tokens ! nat (int (length tokens) + index))
      else None)"

section \<open>The fundamental parsers\<close>

text \<open>\<^verbatim>\<open>def fail(tokens, index): return frozenset()\<close>\<close>

definition fail :: "('t, 'v) parser" where
  "fail = (\<lambda>tokens index. Some {})"

text \<open>
  \<^verbatim>\<open>def noop(tokens, index): return frozenset({(None, index)})\<close>;
  Python's \<^verbatim>\<open>None\<close> is the one value of \<^typ>\<open>unit\<close>.
\<close>

definition noop :: "('t, unit) parser" where
  "noop = (\<lambda>tokens index. Some {((), index)})"

text \<open>
  \<^verbatim>\<open>
  def consume(pred):
      return lambda tokens, index: (
          frozenset({(tokens[index], index + 1)})
          if index < len(tokens) and pred(tokens[index])
          else frozenset()
      )
  \<close>
  The conjunction is evaluated left to right: \<^verbatim>\<open>tokens[index]\<close> is read only when
  \<^verbatim>\<open>index < len(tokens)\<close>, and that read raises for an index below \<open>- len(tokens)\<close>.
\<close>

definition consume :: "('t \<Rightarrow> bool) \<Rightarrow> ('t, 't) parser" where
  "consume pred = (\<lambda>tokens index.
     if index < int (length tokens) then
       (case getitem tokens index of
          None \<Rightarrow> None
        | Some token \<Rightarrow> if pred token then Some {(token, index + 1)} else Some {})
     else Some {})"

text \<open>
  \<^verbatim>\<open>
  def compose(parser1, parser2):
      return lambda tokens, index: (
          frozenset().union(
              *(
                  frozenset({((value1, value2), index2)
                             for value2, index2 in parser2(tokens, index1)})
                  for value1, index1 in parser1(tokens, index)
              )
          )
      )
  \<close>
  \<^verbatim>\<open>parser1\<close> is called first. The starred generator is exhausted before the union is
  taken, so \<^verbatim>\<open>parser2\<close> is called once for every result of \<^verbatim>\<open>parser1\<close>, and an exception
  in any of these calls is the outcome of the whole call.
\<close>

definition compose :: "('t, 'v1) parser \<Rightarrow> ('t, 'v2) parser \<Rightarrow> ('t, 'v1 \<times> 'v2) parser" where
  "compose parser1 parser2 = (\<lambda>tokens index.
     case parser1 tokens index of
       None \<Rightarrow> None
     | Some results1 \<Rightarrow>
         if \<exists>(value1, index1) \<in> results1. parser2 tokens index1 = None then None
         else Some (\<Union>(value1, index1) \<in> results1.
                      (\<lambda>(value2, index2). ((value1, value2), index2)) `
                        the (parser2 tokens index1)))"

text \<open>
  \<^verbatim>\<open>
  def either(parser1, parser2):
      return lambda tokens, index: parser1(tokens, index) | parser2(tokens, index)
  \<close>
\<close>

definition either :: "('t, 'v) parser \<Rightarrow> ('t, 'v) parser \<Rightarrow> ('t, 'v) parser" where
  "either parser1 parser2 = (\<lambda>tokens index.
     case parser1 tokens index of
       None \<Rightarrow> None
     | Some results1 \<Rightarrow>
         (case parser2 tokens index of
            None \<Rightarrow> None
          | Some results2 \<Rightarrow> Some (results1 \<union> results2)))"

text \<open>
  \<^verbatim>\<open>
  def apply(func, parser):
      return lambda tokens, index: frozenset(
          {(func(value), index) for value, index in parser(tokens, index)}
      )
  \<close>
  Inside the comprehension \<^verbatim>\<open>index\<close> is the end index of the result at hand, which
  shadows the start index. (\<open>apply\<close> is a keyword of the proof language, hence the suffix.)
\<close>

definition apply_parser :: "('v1 \<Rightarrow> 'v2) \<Rightarrow> ('t, 'v1) parser \<Rightarrow> ('t, 'v2) parser" where
  "apply_parser func parser = (\<lambda>tokens index.
     case parser tokens index of
       None \<Rightarrow> None
     | Some results \<Rightarrow> Some ((\<lambda>(value, index). (func value, index)) ` results))"

section \<open>The derived parsers\<close>

text \<open>\<^verbatim>\<open>def emit(value): return apply(lambda _: value, noop)\<close>\<close>

definition emit :: "'v \<Rightarrow> ('t, 'v) parser" where
  "emit value = apply_parser (\<lambda>_. value) noop"

text \<open>
  \<^verbatim>\<open>def transform(pred, func): return apply(lambda token: func(token), consume(pred))\<close>
\<close>

definition transform :: "('t \<Rightarrow> bool) \<Rightarrow> ('t \<Rightarrow> 'v) \<Rightarrow> ('t, 'v) parser" where
  "transform pred func = apply_parser (\<lambda>token. func token) (consume pred)"

text \<open>
  \<^verbatim>\<open>
  def combine(parser1, parser2, func):
      return apply(lambda _: func(_[0], _[1]), compose(parser1, parser2))
  \<close>
\<close>

definition combine ::
  "('t, 'v1) parser \<Rightarrow> ('t, 'v2) parser \<Rightarrow> ('v1 \<Rightarrow> 'v2 \<Rightarrow> 'v3) \<Rightarrow> ('t, 'v3) parser" where
  "combine parser1 parser2 func =
     apply_parser (\<lambda>pair. func (fst pair) (snd pair)) (compose parser1 parser2)"

section \<open>The position invariant\<close>

text \<open>
  The outcome of one call stays within bounds when the call returns a result set (it
  does not raise) and every end index in that set lies between the start index and the
  length of the token sequence.
\<close>

definition within_bounds :: "'t list \<Rightarrow> int \<Rightarrow> ('v \<times> int) set option \<Rightarrow> bool" where
  "within_bounds tokens index outcome =
     (case outcome of
        None \<Rightarrow> False
      | Some results \<Rightarrow>
          \<forall>(value, end_index) \<in> results.
            index \<le> end_index \<and> end_index \<le> int (length tokens))"

text \<open>
  A parser respects the bounds when every call at a start index between \<open>0\<close> and the
  length of the token sequence stays within bounds.
\<close>

definition respects_bounds :: "('t, 'v) parser \<Rightarrow> bool" where
  "respects_bounds parser =
     (\<forall>tokens index. 0 \<le> index \<and> index \<le> int (length tokens)
        \<longrightarrow> within_bounds tokens index (parser tokens index))"

section \<open>Values that are equal without being the same\<close>

text \<open>
  A Python frozenset drops an element when it already holds a member that is the same
  object or is equal to it with the same hash. The integer \<^verbatim>\<open>1\<close> and the boolean \<^verbatim>\<open>True\<close>
  are equal, so a frozenset holds one of the two, and which one depends on the order in
  which they arrive; the order in which a set is iterated is not fixed by the language.
  With \<open>same x y\<close> for "identical or equal", \<open>frozensets same elements\<close> is the set of the
  frozensets that the elements can make: a part of the elements with a member for every
  element and no two different members that are the same. For an equivalence \<open>same\<close>
  these are the sets that inserting the elements in some order produces.
\<close>

definition frozensets :: "('a \<Rightarrow> 'a \<Rightarrow> bool) \<Rightarrow> 'a set \<Rightarrow> 'a set set" where
  "frozensets same elements =
     {members \<in> Pow elements.
        (\<forall>x \<in> elements. \<exists>m \<in> members. same m x) \<and>
        (\<forall>m \<in> members. \<forall>n \<in> members. same m n \<longrightarrow> m = n)}"

text \<open>
  A result is the tuple \<^verbatim>\<open>(value, index)\<close>; two tuples are equal when their values are
  and their indices are.
\<close>

definition same_result :: "('v \<Rightarrow> 'v \<Rightarrow> bool) \<Rightarrow> 'v \<times> int \<Rightarrow> 'v \<times> int \<Rightarrow> bool" where
  "same_result same =
     (\<lambda>(value1, index1) (value2, index2). same value1 value2 \<and> index1 = index2)"

text \<open>
  Python's \<^verbatim>\<open>==\<close> on two frozensets: every member of either one is a member of the other.
\<close>

definition frozenset_eq :: "('a \<Rightarrow> 'a \<Rightarrow> bool) \<Rightarrow> 'a set \<Rightarrow> 'a set \<Rightarrow> bool" where
  "frozenset_eq same members1 members2 =
     ((\<forall>x \<in> members1. \<exists>y \<in> members2. same y x) \<and>
      (\<forall>y \<in> members2. \<exists>x \<in> members1. same x y))"

text \<open>
  Two calls have the same outcome when both raise, or both return and the two result
  sets are equal.
\<close>

definition same_outcome ::
  "('v \<Rightarrow> 'v \<Rightarrow> bool) \<Rightarrow> ('v \<times> int) set option \<Rightarrow> ('v \<times> int) set option \<Rightarrow> bool" where
  "same_outcome same outcome1 outcome2 =
     (case outcome1 of
        None \<Rightarrow> outcome2 = None
      | Some results1 \<Rightarrow>
          (case outcome2 of
             None \<Rightarrow> False
           | Some results2 \<Rightarrow> frozenset_eq (same_result same) results1 results2))"

text \<open>
  Since the members that a frozenset keeps are not fixed by the code alone, a call has a
  set of possible outcomes. A parser of the sections above has exactly one.
\<close>

type_synonym ('t, 'v) outcomes = "'t list \<Rightarrow> int \<Rightarrow> ('v \<times> int) set option set"

definition returns :: "('t, 'v) parser \<Rightarrow> ('t, 'v) outcomes" where
  "returns parser = (\<lambda>tokens index. {parser tokens index})"

text \<open>
  \<^verbatim>\<open>
  def apply(func, parser):
      return lambda tokens, index: frozenset(
          {(func(value), index) for value, index in parser(tokens, index)}
      )
  \<close>
  once more, the frozenset now made under the equality \<open>same\<close> of the values that
  \<^verbatim>\<open>func\<close> returns: the comprehension computes \<^verbatim>\<open>(func(value), index)\<close> for every result
  of the parser, and the set keeps one of every group of equal tuples.
\<close>

definition apply_same ::
  "('v2 \<Rightarrow> 'v2 \<Rightarrow> bool) \<Rightarrow> ('v1 \<Rightarrow> 'v2) \<Rightarrow> ('t, 'v1) outcomes \<Rightarrow> ('t, 'v2) outcomes" where
  "apply_same same func parser = (\<lambda>tokens index.
     \<Union>outcome \<in> parser tokens index.
       case outcome of
         None \<Rightarrow> {None}
       | Some results \<Rightarrow>
           Some ` frozensets (same_result same)
                    ((\<lambda>(value, index). (func value, index)) ` results))"

text \<open>A function preserves equality when it maps equal arguments to equal values.\<close>

definition preserves_equality ::
  "('a \<Rightarrow> 'a \<Rightarrow> bool) \<Rightarrow> ('b \<Rightarrow> 'b \<Rightarrow> bool) \<Rightarrow> ('a \<Rightarrow> 'b) \<Rightarrow> bool" where
  "preserves_equality same1 same2 func = (\<forall>x y. same1 x y \<longrightarrow> same2 (func x) (func y))"

text \<open>
  Python's integers and booleans: \<^verbatim>\<open>bool\<close> is a subclass of \<^verbatim>\<open>int\<close>, \<^verbatim>\<open>True\<close> and \<^verbatim>\<open>False\<close>
  compare and hash as \<^verbatim>\<open>1\<close> and \<^verbatim>\<open>0\<close>, and \<^verbatim>\<open>type(x).__name__\<close> tells the two classes
  apart.
\<close>

datatype number = PyInt int | PyBool bool

fun number_value :: "number \<Rightarrow> int" where
  "number_value (PyInt n) = n"
| "number_value (PyBool b) = (if b then 1 else 0)"

definition number_eq :: "number \<Rightarrow> number \<Rightarrow> bool" where
  "number_eq x y = (number_value x = number_value y)"

fun type_name :: "number \<Rightarrow> string" where
  "type_name (PyInt n) = ''int''"
| "type_name (PyBool b) = ''bool''"

section \<open>Calls that create objects\<close>

text \<open>
  A Python callable can create an object at every call (\<^verbatim>\<open>object()\<close>, \<^verbatim>\<open>float('nan')\<close>).
  An object of a plain class is equal to itself only, and so is a NaN as a member of a
  set, where identity is tested before \<^verbatim>\<open>==\<close>. A call then depends on what was created
  before it: it takes the state of the interpreter and returns the new state with its
  outcome. A parser of the sections above is one that neither reads nor changes the state.
\<close>

type_synonym ('s, 't, 'v) stateful_parser =
  "'t list \<Rightarrow> int \<Rightarrow> 's \<Rightarrow> ('v \<times> int) set option \<times> 's"

definition stateless :: "('t, 'v) parser \<Rightarrow> ('s, 't, 'v) stateful_parser" where
  "stateless parser = (\<lambda>tokens index state. (parser tokens index, state))"

text \<open>
  \<^verbatim>\<open>
  def either(parser1, parser2):
      return lambda tokens, index: parser1(tokens, index) | parser2(tokens, index)
  \<close>
  once more, with the two calls in their order: \<^verbatim>\<open>parser1\<close> is called in the state at
  hand, \<^verbatim>\<open>parser2\<close> in the state that \<^verbatim>\<open>parser1\<close> leaves, and is not called when
  \<^verbatim>\<open>parser1\<close> raises.
\<close>

definition either_stateful ::
  "('s, 't, 'v) stateful_parser \<Rightarrow> ('s, 't, 'v) stateful_parser
     \<Rightarrow> ('s, 't, 'v) stateful_parser" where
  "either_stateful parser1 parser2 = (\<lambda>tokens index state.
     case parser1 tokens index state of
       (None, state1) \<Rightarrow> (None, state1)
     | (Some results1, state1) \<Rightarrow>
         (case parser2 tokens index state1 of
            (None, state2) \<Rightarrow> (None, state2)
          | (Some results2, state2) \<Rightarrow> (Some (results1 \<union> results2), state2)))"

text \<open>
  The parser \<^verbatim>\<open>lambda tokens, index: frozenset({(object(), index)})\<close>: the state is the number
  of objects created so far, and an object is known by the number it was created at.
\<close>

datatype py_object = Object nat

definition fresh_object :: "(nat, 't, py_object) stateful_parser" where
  "fresh_object = (\<lambda>tokens index allocated.
     (Some {(Object allocated, index)}, Suc allocated))"

section \<open>Reading a token\<close>

lemma getitem_nonneg:
  "0 \<le> index \<Longrightarrow> index < int (length tokens) \<Longrightarrow>
     getitem tokens index = Some (tokens ! nat index)"
  by (simp add: getitem_def)

text \<open>
  Below zero the subscription counts from the back, and below \<open>- len(tokens)\<close> it raises;
  \<^const>\<open>consume\<close> does not guard against either.
\<close>

lemma consume_from_back:
  "index < 0 \<Longrightarrow> - int (length tokens) \<le> index \<Longrightarrow>
     consume pred tokens index =
       (if pred (tokens ! nat (int (length tokens) + index))
        then Some {(tokens ! nat (int (length tokens) + index), index + 1)}
        else Some {})"
  by (simp add: consume_def getitem_def)

lemma consume_raises:
  "index < - int (length tokens) \<Longrightarrow> consume pred tokens index = None"
  by (simp add: consume_def getitem_def)

text \<open>
  Claim C3. For every predicate, token sequence and start position (a position is a
  non-negative index): \<open>consume pred\<close> returns the empty result set when the position is at
  or beyond the end of the tokens or the predicate is false on the token at the position;
  otherwise it returns exactly the one result made of that token and the position plus one.
\<close>

theorem consume_result:
  assumes "0 \<le> index"
  shows "consume pred tokens index =
    (if int (length tokens) \<le> index \<or> \<not> pred (tokens ! nat index) then Some {}
     else Some {(tokens ! nat index, index + 1)})"
  using assms by (simp add: consume_def getitem_def)

theorem consume_result_witness:
  "(0::int) \<le> 0
   \<and> consume (\<lambda>c. c = CHR ''a'') ''ab'' 0 = Some {(CHR ''a'', 1)}
   \<and> consume (\<lambda>c. c = CHR ''a'') ''ab'' 1 = Some {}
   \<and> consume (\<lambda>c. c = CHR ''a'') ''ab'' 2 = Some {}"
  using consume_result [of 0 "\<lambda>c. c = CHR ''a''" "''ab''"]
    consume_result [of 1 "\<lambda>c. c = CHR ''a''" "''ab''"]
    consume_result [of 2 "\<lambda>c. c = CHR ''a''" "''ab''"]
  by simp

section \<open>Sequencing\<close>

text \<open>
  \<^const>\<open>compose\<close> raises exactly when \<open>parser1\<close> raises or \<open>parser2\<close> raises at the end
  index of one of the results of \<open>parser1\<close>.
\<close>

lemma compose_raises_iff:
  "compose parser1 parser2 tokens index = None \<longleftrightarrow>
     parser1 tokens index = None \<or>
     (\<exists>results1 value1 index1. parser1 tokens index = Some results1 \<and>
        (value1, index1) \<in> results1 \<and> parser2 tokens index1 = None)"
  by (auto simp: compose_def split: option.splits)

text \<open>
  Claim C1. For all parsers \<open>parser1\<close> and \<open>parser2\<close>, every token sequence and every
  start position: when \<open>parser1\<close> returns the result set \<open>results1\<close> and \<open>parser2\<close>
  returns a result set at the end index of each of its members, the result set of
  \<open>compose parser1 parser2\<close> is the set of all \<open>((value1, value2), index2)\<close> such that
  \<open>(value1, index1)\<close> is a result of \<open>parser1\<close> at the start position and
  \<open>(value2, index2)\<close> is a result of \<open>parser2\<close> at \<open>index1\<close>. In particular it is
  empty when \<open>results1\<close> is empty, and when every call of \<open>parser2\<close> returns the empty set.
\<close>

theorem compose_result_set:
  assumes p1: "parser1 tokens index = Some results1"
    and p2: "\<forall>(value1, index1) \<in> results1. parser2 tokens index1 \<noteq> None"
  shows "compose parser1 parser2 tokens index =
           Some {((value1, value2), index2) | value1 index1 value2 index2 results2.
                   (value1, index1) \<in> results1 \<and> parser2 tokens index1 = Some results2
                   \<and> (value2, index2) \<in> results2}
         \<and> (results1 = {} \<longrightarrow> compose parser1 parser2 tokens index = Some {})
         \<and> ((\<forall>(value1, index1) \<in> results1. parser2 tokens index1 = Some {})
              \<longrightarrow> compose parser1 parser2 tokens index = Some {})"
proof -
  have returns: "\<not> (\<exists>(value1, index1) \<in> results1. parser2 tokens index1 = None)"
    using p2 by auto
  have unfolded: "compose parser1 parser2 tokens index =
      Some (\<Union>(value1, index1) \<in> results1.
              (\<lambda>(value2, index2). ((value1, value2), index2)) ` the (parser2 tokens index1))"
    using p1 returns by (simp add: compose_def)
  have "(\<Union>(value1, index1) \<in> results1.
              (\<lambda>(value2, index2). ((value1, value2), index2)) ` the (parser2 tokens index1))
        = {((value1, value2), index2) | value1 index1 value2 index2 results2.
                   (value1, index1) \<in> results1 \<and> parser2 tokens index1 = Some results2
                   \<and> (value2, index2) \<in> results2}" (is "?lhs = ?rhs")
  proof (intro set_eqI iffI)
    fix x assume "x \<in> ?lhs"
    then obtain value1 index1 value2 index2 where in1: "(value1, index1) \<in> results1"
      and in2: "(value2, index2) \<in> the (parser2 tokens index1)"
      and x: "x = ((value1, value2), index2)"
      by auto
    from p2 in1 obtain results2 where "parser2 tokens index1 = Some results2" by auto
    with in1 in2 x show "x \<in> ?rhs" by auto
  next
    fix x assume "x \<in> ?rhs"
    then show "x \<in> ?lhs" by force
  qed
  with unfolded have first: "compose parser1 parser2 tokens index = Some ?rhs"
    by simp
  have second: "results1 = {} \<longrightarrow> compose parser1 parser2 tokens index = Some {}"
    using unfolded by simp
  have third: "(\<forall>(value1, index1) \<in> results1. parser2 tokens index1 = Some {})
      \<longrightarrow> compose parser1 parser2 tokens index = Some {}"
    using unfolded by auto
  from first second third show ?thesis by blast
qed

theorem compose_result_set_witness:
  "either (emit CHR ''x'') (consume (\<lambda>c. True)) ''ab'' 0 = Some {(CHR ''x'', 0), (CHR ''a'', 1)}
   \<and> consume (\<lambda>c. c = CHR ''a'') ''ab'' 0 = Some {(CHR ''a'', 1)}
   \<and> consume (\<lambda>c. c = CHR ''a'') ''ab'' 1 = Some {}
   \<and> compose (either (emit CHR ''x'') (consume (\<lambda>c. True))) (consume (\<lambda>c. c = CHR ''a''))
        ''ab'' 0 = Some {((CHR ''x'', CHR ''a''), 1)}"
proof -
  let ?p1 = "either (emit CHR ''x'') (consume (\<lambda>c. True)) :: (char, char) parser"
  let ?p2 = "consume (\<lambda>c. c = CHR ''a'') :: (char, char) parser"
  have p1: "?p1 ''ab'' 0 = Some {(CHR ''x'', 0), (CHR ''a'', 1)}"
    by (auto simp: either_def emit_def apply_parser_def noop_def consume_def getitem_def)
  have at0: "?p2 ''ab'' 0 = Some {(CHR ''a'', 1)}"
    by (simp add: consume_def getitem_def)
  have at1: "?p2 ''ab'' 1 = Some {}"
    by (simp add: consume_def getitem_def)
  have p2: "\<forall>(value1, index1) \<in> {(CHR ''x'', 0::int), (CHR ''a'', 1)}. ?p2 ''ab'' index1 \<noteq> None"
    using at0 at1 by simp
  from compose_result_set [of ?p1 "''ab''" 0 _ ?p2, OF p1 p2]
  have "compose ?p1 ?p2 ''ab'' 0 =
      Some {((value1, value2), index2) | value1 index1 value2 index2 results2.
              (value1, index1) \<in> {(CHR ''x'', 0::int), (CHR ''a'', 1)}
              \<and> ?p2 ''ab'' index1 = Some results2 \<and> (value2, index2) \<in> results2}"
    by blast
  also have "{((value1, value2), index2) | value1 index1 value2 index2 results2.
              (value1, index1) \<in> {(CHR ''x'', 0::int), (CHR ''a'', 1)}
              \<and> ?p2 ''ab'' index1 = Some results2 \<and> (value2, index2) \<in> results2}
      = {((CHR ''x'', CHR ''a''), 1)}"
    using at0 at1 by auto
  finally show ?thesis using p1 at0 at1 by simp
qed

section \<open>Alternation\<close>

text \<open>
  Claim C7. \<^const>\<open>fail\<close> returns the empty result set whatever the tokens and the index
  are, and it is the identity of \<^const>\<open>either\<close> on both sides: for every parser, token
  sequence and index, \<open>either fail P\<close> and \<open>either P fail\<close> return what \<open>P\<close> returns.
\<close>

theorem either_fail_identity:
  "fail tokens index = Some {}
   \<and> either fail parser tokens index = parser tokens index
   \<and> either parser fail tokens index = parser tokens index"
  by (simp add: fail_def either_def split: option.split)

text \<open>
  Claim C4. For all parsers \<open>parser1\<close> and \<open>parser2\<close>, every token sequence and every
  position: the result set of \<open>either parser1 parser2\<close> is the union of the result sets of
  the two parsers at that position (a result that both return is one member of it), and
  \<open>either parser1 parser2\<close> and \<open>either parser2 parser1\<close> have identical outcomes.
\<close>

theorem either_union_commutes:
  "(parser1 tokens index = Some results1 \<and> parser2 tokens index = Some results2
      \<longrightarrow> either parser1 parser2 tokens index = Some (results1 \<union> results2))
   \<and> either parser1 parser2 tokens index = either parser2 parser1 tokens index"
  by (auto simp: either_def split: option.splits)

theorem either_union_commutes_witness:
  "consume (\<lambda>c. True) ''a'' 0 = Some {(CHR ''a'', 1)}
   \<and> either (emit CHR ''a'') (transform (\<lambda>c. True) (\<lambda>c. c)) ''a'' 0
       = Some {(CHR ''a'', 0), (CHR ''a'', 1)}
   \<and> either (consume (\<lambda>c. True)) (either (emit CHR ''a'') (transform (\<lambda>c. True) (\<lambda>c. c)))
        ''a'' 0 = Some {(CHR ''a'', 0), (CHR ''a'', 1)}"
proof -
  let ?p1 = "consume (\<lambda>c. True) :: (char, char) parser"
  let ?p2 = "either (emit CHR ''a'') (transform (\<lambda>c. True) (\<lambda>c. c)) :: (char, char) parser"
  have p1: "?p1 ''a'' 0 = Some {(CHR ''a'', 1)}"
    by (simp add: consume_def getitem_def)
  have p2: "?p2 ''a'' 0 = Some {(CHR ''a'', 0), (CHR ''a'', 1)}"
    by (auto simp: either_def emit_def transform_def apply_parser_def noop_def consume_def
        getitem_def)
  from either_union_commutes [of ?p1 "''a''" 0 _ ?p2] p1 p2
  have "either ?p1 ?p2 ''a'' 0 = Some ({(CHR ''a'', 1)} \<union> {(CHR ''a'', 0), (CHR ''a'', 1)})"
    by blast
  also have "{(CHR ''a'', 1::int)} \<union> {(CHR ''a'', 0), (CHR ''a'', 1)}
      = {(CHR ''a'', 0), (CHR ''a'', 1)}"
    by auto
  finally show ?thesis using p1 p2 by simp
qed

section \<open>Mapping over the output\<close>

text \<open>
  Claim C5. For every function, parser, token sequence and position: when the parser
  returns the result set \<open>results\<close>, \<open>apply func parser\<close> returns the set of all
  \<open>(func value, end_index)\<close> with \<open>(value, end_index)\<close> in \<open>results\<close>, so each result keeps
  the end index of the result it is mapped from, the end indices of the two sets are the
  same, and the mapped set is empty exactly when \<open>results\<close> is.
\<close>

theorem apply_keeps_failure_and_positions:
  assumes "parser tokens index = Some results"
  shows "\<exists>mapped. apply_parser func parser tokens index = Some mapped
           \<and> mapped = {(func value, end_index) | value end_index. (value, end_index) \<in> results}
           \<and> (mapped = {} \<longleftrightarrow> results = {})
           \<and> snd ` mapped = snd ` results"
proof -
  let ?mapped = "(\<lambda>(value, end_index). (func value, end_index)) ` results"
  have "apply_parser func parser tokens index = Some ?mapped"
    using assms by (simp add: apply_parser_def)
  moreover have "?mapped = {(func value, end_index) | value end_index. (value, end_index) \<in> results}"
    by force
  moreover have "?mapped = {} \<longleftrightarrow> results = {}"
    by simp
  moreover have "snd ` ?mapped = snd ` results"
    by (simp add: image_image case_prod_unfold)
  ultimately show ?thesis by simp
qed

theorem apply_keeps_failure_and_positions_witness:
  "either (emit CHR ''x'') (consume (\<lambda>c. True)) ''ab'' 0 = Some {(CHR ''x'', 0), (CHR ''a'', 1)}
   \<and> apply_parser (\<lambda>c. ()) (either (emit CHR ''x'') (consume (\<lambda>c. True))) ''ab'' 0
       = Some {((), 0), ((), 1)}
   \<and> (fail :: (char, char) parser) ''ab'' 0 = Some {}
   \<and> apply_parser (\<lambda>c. ()) (fail :: (char, char) parser) ''ab'' 0 = Some {}"
proof -
  let ?p = "either (emit CHR ''x'') (consume (\<lambda>c. True)) :: (char, char) parser"
  have p: "?p ''ab'' 0 = Some {(CHR ''x'', 0), (CHR ''a'', 1)}"
    by (auto simp: either_def emit_def apply_parser_def noop_def consume_def getitem_def)
  from apply_keeps_failure_and_positions [where parser = ?p and func = "\<lambda>c. ()", OF p]
  have "apply_parser (\<lambda>c. ()) ?p ''ab'' 0
      = Some {((), end_index) | value end_index.
                (value, end_index) \<in> {(CHR ''x'', 0::int), (CHR ''a'', 1)}}"
    by blast
  also have "{((), end_index) | value end_index.
                (value, end_index) \<in> {(CHR ''x'', 0::int), (CHR ''a'', 1)}} = {((), 0), ((), 1)}"
    by auto
  finally have first: "apply_parser (\<lambda>c. ()) ?p ''ab'' 0 = Some {((), 0), ((), 1)}" .
  have f: "(fail :: (char, char) parser) ''ab'' 0 = Some {}"
    by (simp add: fail_def)
  from apply_keeps_failure_and_positions [where parser = fail and func = "\<lambda>c. ()", OF f]
  have second: "apply_parser (\<lambda>c. ()) (fail :: (char, char) parser) ''ab'' 0 = Some {}"
    by auto
  from p first f second show ?thesis by simp
qed

section \<open>Combining two outputs\<close>

text \<open>
  Claim C9. For all parsers \<open>parser1\<close> and \<open>parser2\<close>, every two-argument function
  \<open>func\<close>, every token sequence and every position, \<open>combine parser1 parser2 func\<close> has the
  outcome of \<open>apply\<close> with the uncurried \<open>func\<close> on \<open>compose parser1 parser2\<close>.
\<close>

theorem combine_is_apply_of_compose:
  "combine parser1 parser2 func tokens index
     = apply_parser (\<lambda>(value1, value2). func value1 value2) (compose parser1 parser2)
         tokens index"
  by (simp add: combine_def case_prod_unfold)

text \<open>
  Claim C8. On the tokens \<open>1\<close>, \<open>+\<close>, \<open>2\<close>, with \<open>digit = transform isDigit toIntValue\<close>,
  \<open>plus = consume isPlusSign\<close> and
  \<open>sum = combine digit (combine plus digit (\<lambda>_ d. d)) (\<lambda>a b. a + b)\<close>, where \<open>isDigit\<close>
  holds of the two digit tokens, \<open>isPlusSign\<close> holds of the plus sign and \<open>toIntValue\<close>
  gives each digit its number, \<open>sum\<close> at position \<open>0\<close> returns exactly the one result
  \<open>(3, 3)\<close>.
\<close>

theorem sum_scenario:
  assumes "isDigit CHR ''1''" and "isDigit CHR ''2''" and "isPlusSign CHR ''+''"
    and "toIntValue CHR ''1'' = (1::int)" and "toIntValue CHR ''2'' = 2"
  shows "combine (transform isDigit toIntValue)
           (combine (consume isPlusSign) (transform isDigit toIntValue) (\<lambda>_ d. d))
           (\<lambda>a b. a + b) ''1+2'' 0 = Some {(3, 3)}"
  using assms
  by (simp add: combine_def transform_def apply_parser_def compose_def consume_def getitem_def)

theorem sum_scenario_witness:
  "combine (transform (\<lambda>c. c \<in> set ''0123456789'') (\<lambda>c. int (of_char c) - 48))
     (combine (consume (\<lambda>c. c = CHR ''+''))
        (transform (\<lambda>c. c \<in> set ''0123456789'') (\<lambda>c. int (of_char c) - 48)) (\<lambda>_ d. d))
     (\<lambda>a b. a + b) ''1+2'' 0 = Some {(3, 3)}"
  using sum_scenario [of "\<lambda>c. c \<in> set ''0123456789''" "\<lambda>c. c = CHR ''+''"
      "\<lambda>c. int (of_char c) - 48"]
  by simp

section \<open>End positions stay within bounds\<close>

lemma respects_boundsD:
  assumes "respects_bounds parser" and "0 \<le> index" and "index \<le> int (length tokens)"
  obtains results where "parser tokens index = Some results"
    and "\<And>value end_index. (value, end_index) \<in> results \<Longrightarrow>
           index \<le> end_index \<and> end_index \<le> int (length tokens)"
proof -
  from assms have "within_bounds tokens index (parser tokens index)"
    by (simp add: respects_bounds_def)
  then show thesis
    by (cases "parser tokens index") (auto simp: within_bounds_def intro: that)
qed

lemma respects_bounds_fail: "respects_bounds fail"
  by (simp add: respects_bounds_def within_bounds_def fail_def)

lemma respects_bounds_noop: "respects_bounds noop"
  by (simp add: respects_bounds_def within_bounds_def noop_def)

lemma respects_bounds_consume: "respects_bounds (consume pred)"
  by (simp add: respects_bounds_def within_bounds_def consume_def getitem_nonneg)

lemma respects_bounds_either:
  assumes "respects_bounds left" and "respects_bounds right"
  shows "respects_bounds (either left right)"
  using assms unfolding respects_bounds_def within_bounds_def either_def
  by (fastforce split: option.splits)

lemma respects_bounds_apply:
  assumes "respects_bounds inner"
  shows "respects_bounds (apply_parser func inner)"
  using assms unfolding respects_bounds_def within_bounds_def apply_parser_def
  by (fastforce split: option.splits)

text \<open>
  Sequencing: the second parser starts where a result of the first one ended, which is a
  position within the bounds again, so it returns there and ends within the bounds too.
\<close>

lemma respects_bounds_compose:
  assumes p: "respects_bounds first" and q: "respects_bounds second"
  shows "respects_bounds (compose first second)"
  unfolding respects_bounds_def
proof (intro allI impI)
  fix tokens :: "'a list" and index :: int
  assume range: "0 \<le> index \<and> index \<le> int (length tokens)"
  from respects_boundsD [OF p] range obtain r1 where r1: "first tokens index = Some r1"
    and b1: "\<And>v e. (v, e) \<in> r1 \<Longrightarrow> index \<le> e \<and> e \<le> int (length tokens)"
    by blast
  have sub: "\<exists>r2. second tokens e = Some r2 \<and>
      (\<forall>w e'. (w, e') \<in> r2 \<longrightarrow> index \<le> e' \<and> e' \<le> int (length tokens))"
    if "(v, e) \<in> r1" for v e
  proof -
    from b1 [OF that] range
    have e: "0 \<le> e" "e \<le> int (length tokens)" "index \<le> e" by auto
    from respects_boundsD [OF q e(1) e(2)] obtain r2 where r2: "second tokens e = Some r2"
      and b2: "\<And>w e'. (w, e') \<in> r2 \<Longrightarrow> e \<le> e' \<and> e' \<le> int (length tokens)"
      by blast
    have "index \<le> e' \<and> e' \<le> int (length tokens)" if "(w, e') \<in> r2" for w e'
      using b2 [OF that] e(3) by linarith
    with r2 show ?thesis by blast
  qed
  have returns: "\<not> (\<exists>(v, e) \<in> r1. second tokens e = None)"
  proof
    assume "\<exists>(v, e) \<in> r1. second tokens e = None"
    then obtain v e where "(v, e) \<in> r1" "second tokens e = None" by auto
    with sub [of v e] show False by simp
  qed
  have "index \<le> e' \<and> e' \<le> int (length tokens)"
    if "(x, e') \<in> (\<Union>(value1, index1) \<in> r1.
                      (\<lambda>(value2, index2). ((value1, value2), index2)) `
                        the (second tokens index1))" for x e'
  proof -
    from that obtain v e w where in1: "(v, e) \<in> r1" and in2: "(w, e') \<in> the (second tokens e)"
      by auto
    from sub [OF in1] in2 show ?thesis by auto
  qed
  then show "within_bounds tokens index (compose first second tokens index)"
    using r1 returns by (simp add: compose_def within_bounds_def case_prod_unfold) blast
qed

text \<open>
  Claim C2. Every parser built from \<open>fail\<close>, \<open>noop\<close>, \<open>consume\<close>, \<open>compose\<close>, \<open>either\<close>,
  \<open>apply\<close>, \<open>emit\<close>, \<open>transform\<close> and \<open>combine\<close> respects the bounds: at every start
  position with \<open>0 \<le> position \<le> length tokens\<close> it returns a result set, and every
  end position in it lies between the start position and the length of the tokens. The
  three leaves and \<open>emit\<close> and \<open>transform\<close> respect the bounds, and each combinator
  yields a parser that does from parsers that do; a parser built from the constructors
  has the property by as many uses of these facts as it has constructors.
\<close>

theorem end_positions_within_bounds:
  "respects_bounds fail
   \<and> respects_bounds noop
   \<and> respects_bounds (consume pred)
   \<and> (respects_bounds first \<and> respects_bounds second
        \<longrightarrow> respects_bounds (compose first second))
   \<and> (respects_bounds left \<and> respects_bounds right
        \<longrightarrow> respects_bounds (either left right))
   \<and> (respects_bounds inner \<longrightarrow> respects_bounds (apply_parser func inner))
   \<and> respects_bounds (emit value)
   \<and> respects_bounds (transform test convert)
   \<and> (respects_bounds before \<and> respects_bounds after
        \<longrightarrow> respects_bounds (combine before after join))"
proof (intro conjI impI)
  show "respects_bounds fail" by (rule respects_bounds_fail)
  show "respects_bounds noop" by (rule respects_bounds_noop)
  show "respects_bounds (consume pred)" by (rule respects_bounds_consume)
  show "respects_bounds (compose first second)"
    if "respects_bounds first \<and> respects_bounds second"
    using that by (simp add: respects_bounds_compose)
  show "respects_bounds (either left right)"
    if "respects_bounds left \<and> respects_bounds right"
    using that by (simp add: respects_bounds_either)
  show "respects_bounds (apply_parser func inner)" if "respects_bounds inner"
    using that by (rule respects_bounds_apply)
  show "respects_bounds (emit value)"
    unfolding emit_def by (rule respects_bounds_apply [OF respects_bounds_noop])
  show "respects_bounds (transform test convert)"
    unfolding transform_def by (rule respects_bounds_apply [OF respects_bounds_consume])
  show "respects_bounds (combine before after join)"
    if "respects_bounds before \<and> respects_bounds after"
    unfolding combine_def using that
    by (simp add: respects_bounds_apply respects_bounds_compose)
qed

theorem end_positions_within_bounds_witness:
  "(0::int) \<le> 1 \<and> 1 \<le> int (length ''ab'')
   \<and> combine (consume (\<lambda>c. True)) (either (consume (\<lambda>c. True)) (emit CHR ''-''))
        (\<lambda>a b. [a, b]) ''ab'' 1 = Some {(''b-'', 2)}
   \<and> (1::int) \<le> 2 \<and> 2 \<le> int (length ''ab'')"
proof -
  let ?first = "consume (\<lambda>c. True) :: (char, char) parser"
  let ?second = "either (consume (\<lambda>c. True)) (emit CHR ''-'') :: (char, char) parser"
  let ?sum = "combine ?first ?second (\<lambda>a b. [a, b])"
  note closure = end_positions_within_bounds
  note leaf = closure [THEN conjunct2, THEN conjunct2, THEN conjunct1]
  note alt = closure [THEN conjunct2, THEN conjunct2, THEN conjunct2, THEN conjunct2,
      THEN conjunct1, THEN mp, OF conjI]
  note const = closure [THEN conjunct2, THEN conjunct2, THEN conjunct2, THEN conjunct2,
      THEN conjunct2, THEN conjunct2, THEN conjunct1]
  note seq = closure [THEN conjunct2, THEN conjunct2, THEN conjunct2, THEN conjunct2,
      THEN conjunct2, THEN conjunct2, THEN conjunct2, THEN conjunct2, THEN mp, OF conjI]
  have "respects_bounds ?first" by (rule leaf)
  moreover have "respects_bounds ?second" by (rule alt) (rule leaf, rule const)
  ultimately have inv: "respects_bounds ?sum" by (rule seq)
  have start: "(0::int) \<le> 1" "1 \<le> int (length ''ab'')" by simp_all
  have run: "?sum ''ab'' 1 = Some {(''b-'', 2)}"
    by (simp add: combine_def compose_def either_def emit_def apply_parser_def noop_def
        consume_def getitem_def)
  from respects_boundsD [OF inv start] run
  have "(1::int) \<le> 2 \<and> 2 \<le> int (length ''ab'')" by auto
  with start run show ?thesis by simp
qed

section \<open>Mapping over values with a coarser equality\<close>

text \<open>
  Under the equality of HOL values a set of elements makes one frozenset, and
  \<^const>\<open>apply_same\<close> is \<^const>\<open>apply_parser\<close>.
\<close>

lemma frozensets_eq: "frozensets (=) elements = {elements}"
  by (auto simp: frozensets_def)

lemma same_result_eq: "same_result (=) = (=)"
  by (auto simp: same_result_def fun_eq_iff)

lemma apply_same_structural:
  "apply_same (=) func (returns parser) = returns (apply_parser func parser)"
  by (auto simp: apply_same_def returns_def apply_parser_def same_result_eq frozensets_eq
      fun_eq_iff split: option.splits)

lemma subset_pair: "M \<subseteq> {a, b} \<longleftrightarrow> M = {} \<or> M = {a} \<or> M = {b} \<or> M = {a, b}"
  by blast

lemma frozensets_single: "same a a \<Longrightarrow> frozensets same {a} = {{a}}"
  unfolding frozensets_def by (auto simp: subset_singleton_iff)

lemma frozensets_pair_same:
  assumes "a \<noteq> b" "same a b" "same b a" "same a a" "same b b"
  shows "frozensets same {a, b} = {{a}, {b}}"
proof (intro set_eqI iffI)
  fix M assume "M \<in> frozensets same {a, b}"
  then have sub: "M \<subseteq> {a, b}" and cover: "\<forall>x \<in> {a, b}. \<exists>m \<in> M. same m x"
    and apart: "\<forall>m \<in> M. \<forall>n \<in> M. same m n \<longrightarrow> m = n"
    by (simp_all add: frozensets_def)
  from sub consider "M = {}" | "M = {a}" | "M = {b}" | "M = {a, b}"
    unfolding subset_pair by blast
  then show "M \<in> {{a}, {b}}"
  proof cases
    case 1 with cover show ?thesis by blast
  next
    case 4 with apart assms show ?thesis by blast
  qed simp_all
next
  fix M assume "M \<in> {{a}, {b}}"
  then show "M \<in> frozensets same {a, b}"
    using assms by (auto simp: frozensets_def)
qed

lemma same_result_simp:
  "same_result same (value1, index1) (value2, index2) \<longleftrightarrow> same value1 value2 \<and> index1 = index2"
  by (simp add: same_result_def)

lemma equivp_same_result:
  assumes "equivp same"
  shows "equivp (same_result same)"
proof (rule equivpI)
  show "reflp (same_result same)"
    using equivp_reflp [OF assms] by (auto simp: reflp_def same_result_simp)
  show "symp (same_result same)"
    using equivp_symp [OF assms] by (auto simp: symp_def same_result_simp)
  show "transp (same_result same)"
    using equivp_transp [OF assms] by (auto simp: transp_def same_result_simp)
qed

lemma frozensetsD:
  assumes "members \<in> frozensets same elements"
  shows "members \<subseteq> elements"
    and "\<And>x. x \<in> elements \<Longrightarrow> \<exists>m \<in> members. same m x"
    and "\<And>m n. m \<in> members \<Longrightarrow> n \<in> members \<Longrightarrow> same m n \<Longrightarrow> m = n"
  using assms unfolding frozensets_def by blast+

lemma frozensets_nonempty:
  assumes "equivp same"
  shows "frozensets same elements \<noteq> {}"
proof -
  define rep where "rep x = (SOME m. m \<in> elements \<and> same m x)" for x
  have rep: "rep x \<in> elements \<and> same (rep x) x" if "x \<in> elements" for x
  proof -
    have "x \<in> elements \<and> same x x"
      using that equivp_reflp [OF assms] by simp
    then show ?thesis
      unfolding rep_def by (rule someI [where P = "\<lambda>m. m \<in> elements \<and> same m x"])
  qed
  have rep_eq: "rep x = rep y" if "same x y" for x y
  proof -
    have "same m x \<longleftrightarrow> same m y" for m
      using that equivp_symp [OF assms] equivp_transp [OF assms] by blast
    then show ?thesis by (simp add: rep_def)
  qed
  have "rep ` elements \<in> frozensets same elements"
    unfolding frozensets_def
  proof (intro CollectI conjI ballI impI)
    show "rep ` elements \<in> Pow elements" using rep by blast
  next
    fix x assume "x \<in> elements"
    with rep show "\<exists>m \<in> rep ` elements. same m x" by blast
  next
    fix m n assume "m \<in> rep ` elements" and "n \<in> rep ` elements" and mn: "same m n"
    then obtain x y where x: "x \<in> elements" "m = rep x" and y: "y \<in> elements" "n = rep y"
      by blast
    from rep [OF x(1)] rep [OF y(1)] mn x(2) y(2) have "same x y"
      using equivp_symp [OF assms] equivp_transp [OF assms] by blast
    then show "m = n" using x(2) y(2) rep_eq by simp
  qed
  then show ?thesis by blast
qed

lemma identity_up_to_equality:
  assumes "equivp same" and "members \<in> frozensets same elements"
  shows "frozenset_eq same members elements"
  unfolding frozenset_eq_def
proof (intro conjI ballI)
  fix x assume "x \<in> members"
  with frozensetsD(1) [OF assms(2)] equivp_reflp [OF assms(1)]
  show "\<exists>y \<in> elements. same y x" by blast
next
  fix y assume "y \<in> elements"
  with frozensetsD(2) [OF assms(2)] show "\<exists>x \<in> members. same x y" by blast
qed

lemma composition_up_to_equality:
  assumes trans: "equivp same_c"
    and pres: "preserves_equality same_b same_c g"
    and inner: "inner \<in> frozensets (same_result same_b) ((\<lambda>(value, index). (f value, index)) ` results)"
    and outer: "outer \<in> frozensets (same_result same_c) ((\<lambda>(value, index). (g value, index)) ` inner)"
    and direct: "direct \<in> frozensets (same_result same_c)
                    ((\<lambda>(value, index). ((g \<circ> f) value, index)) ` results)"
  shows "frozenset_eq (same_result same_c) outer direct"
  unfolding frozenset_eq_def
proof (intro conjI ballI)
  fix x assume "x \<in> outer"
  with frozensetsD(1) [OF outer] obtain w i where w: "(w, i) \<in> inner" and x: "x = (g w, i)"
    by auto
  from w frozensetsD(1) [OF inner] obtain v where v: "(v, i) \<in> results" and "w = f v"
    by auto
  with x have "x \<in> (\<lambda>(value, index). ((g \<circ> f) value, index)) ` results"
    by force
  with frozensetsD(2) [OF direct] show "\<exists>y \<in> direct. same_result same_c y x" by blast
next
  fix y assume "y \<in> direct"
  with frozensetsD(1) [OF direct] obtain v i where v: "(v, i) \<in> results" and y: "y = (g (f v), i)"
    by auto
  from v have "(f v, i) \<in> (\<lambda>(value, index). (f value, index)) ` results" by force
  with frozensetsD(2) [OF inner] obtain w where w: "(w, i) \<in> inner" and "same_b w (f v)"
    by (fastforce simp: same_result_simp)
  with pres have step: "same_c (g w) (g (f v))"
    by (simp add: preserves_equality_def)
  from w have "(g w, i) \<in> (\<lambda>(value, index). (g value, index)) ` inner" by force
  with frozensetsD(2) [OF outer] obtain u where u: "(u, i) \<in> outer" and "same_c u (g w)"
    by (fastforce simp: same_result_simp)
  with step equivp_transp [OF trans] have "same_c u (g (f v))" by blast
  with u y show "\<exists>x \<in> outer. same_result same_c x y"
    by (force simp: same_result_simp)
qed

text \<open>
  The composition law as the specification states it, for all functions, fails. The parser
  \<open>either (emit a) (emit b)\<close> has the two results \<open>(a, 0)\<close> and \<open>(b, 0)\<close>; \<open>f\<close> maps \<open>a\<close>
  to \<^verbatim>\<open>1\<close> and \<open>b\<close> to \<^verbatim>\<open>True\<close>, which are equal, so \<open>apply f\<close> returns one result; \<open>g\<close> is
  \<^verbatim>\<open>type(x).__name__\<close>. Then \<open>apply g (apply f P)\<close> returns one result, \<open>int\<close> or \<open>bool\<close>,
  and \<open>apply (g \<circ> f) P\<close> returns both.
\<close>

theorem apply_composition_counterexample:
  "either (emit CHR ''a'') (emit CHR ''b'') ([] :: char list) 0
      = Some {(CHR ''a'', 0), (CHR ''b'', 0)}
   \<and> apply_same number_eq (\<lambda>c. if c = CHR ''a'' then PyInt 1 else PyBool True)
        (returns (either (emit CHR ''a'') (emit CHR ''b''))) ([] :: char list) 0
      = {Some {(PyInt 1, 0)}, Some {(PyBool True, 0)}}
   \<and> apply_same (=) type_name
        (apply_same number_eq (\<lambda>c. if c = CHR ''a'' then PyInt 1 else PyBool True)
          (returns (either (emit CHR ''a'') (emit CHR ''b'')))) ([] :: char list) 0
      = {Some {(''int'', 0)}, Some {(''bool'', 0)}}
   \<and> apply_same (=) (type_name \<circ> (\<lambda>c. if c = CHR ''a'' then PyInt 1 else PyBool True))
        (returns (either (emit CHR ''a'') (emit CHR ''b''))) ([] :: char list) 0
      = {Some {(''int'', 0), (''bool'', 0)}}
   \<and> \<not> same_outcome (=) (Some {(''int'', 0)}) (Some {(''int'', 0), (''bool'', 0)})
   \<and> \<not> same_outcome (=) (Some {(''bool'', 0)}) (Some {(''int'', 0), (''bool'', 0)})"
proof -
  let ?P = "either (emit CHR ''a'') (emit CHR ''b'') :: (char, char) parser"
  let ?f = "\<lambda>c. if c = CHR ''a'' then PyInt 1 else PyBool True"
  have run: "?P [] 0 = Some {(CHR ''a'', 0), (CHR ''b'', 0)}"
    by (auto simp: either_def emit_def apply_parser_def noop_def)
  have "frozensets (same_result number_eq) {(PyInt 1, 0), (PyBool True, 0)}
      = {{(PyInt 1, 0)}, {(PyBool True, 0)}}"
    by (rule frozensets_pair_same) (simp_all add: same_result_simp number_eq_def)
  then have inner: "apply_same number_eq ?f (returns ?P) [] 0
      = {Some {(PyInt 1, 0)}, Some {(PyBool True, 0)}}"
    by (simp add: apply_same_def returns_def run)
  have outer: "apply_same (=) type_name (apply_same number_eq ?f (returns ?P)) [] 0
      = {Some {(''int'', 0)}, Some {(''bool'', 0)}}"
    unfolding apply_same_def [of "(=)"] inner
    by (auto simp: same_result_eq frozensets_eq)
  have direct: "apply_same (=) (type_name \<circ> ?f) (returns ?P) [] 0
      = {Some {(''int'', 0), (''bool'', 0)}}"
    by (simp add: apply_same_def returns_def run same_result_eq frozensets_eq)
  have apart1: "\<not> same_outcome (=) (Some {(''int'', 0)}) (Some {(''int'', 0), (''bool'', 0)})"
    by (simp add: same_outcome_def frozenset_eq_def same_result_simp)
  have apart2: "\<not> same_outcome (=) (Some {(''bool'', 0)}) (Some {(''int'', 0), (''bool'', 0)})"
    by (simp add: same_outcome_def frozenset_eq_def same_result_simp)
  from run inner outer direct apart1 apart2 show ?thesis by blast
qed

text \<open>
  Claim C6, amended. For every parser, token sequence and position, and equalities that
  are equivalences: \<open>apply\<close> of the identity returns a result set equal to the parser's,
  and for every \<open>f\<close> and every \<open>g\<close> that preserves equality, \<open>apply g (apply f P)\<close> and
  \<open>apply (g \<circ> f) P\<close> return equal result sets, whichever members the frozensets keep;
  all three calls have an outcome.
\<close>

theorem apply_functor_laws_up_to_equality:
  assumes "equivp same_a" and "equivp same_b" and "equivp same_c"
    and "preserves_equality same_b same_c g"
  shows "apply_same same_a (\<lambda>value. value) (returns parser) tokens index \<noteq> {}
    \<and> (\<forall>outcome \<in> apply_same same_a (\<lambda>value. value) (returns parser) tokens index.
          same_outcome same_a outcome (parser tokens index))
    \<and> apply_same same_c g (apply_same same_b f (returns parser)) tokens index \<noteq> {}
    \<and> apply_same same_c (g \<circ> f) (returns parser) tokens index \<noteq> {}
    \<and> (\<forall>outcome1 \<in> apply_same same_c g (apply_same same_b f (returns parser)) tokens index.
        \<forall>outcome2 \<in> apply_same same_c (g \<circ> f) (returns parser) tokens index.
          same_outcome same_c outcome1 outcome2)"
proof (cases "parser tokens index")
  case None
  then show ?thesis
    by (simp add: apply_same_def returns_def same_outcome_def)
next
  case (Some results)
  note ea = equivp_same_result [OF assms(1)]
  note eb = equivp_same_result [OF assms(2)]
  note ec = equivp_same_result [OF assms(3)]
  have id_run: "apply_same same_a (\<lambda>value. value) (returns parser) tokens index
      = Some ` frozensets (same_result same_a) results"
    using Some by (simp add: apply_same_def returns_def)
  have inner_run: "apply_same same_b f (returns parser) tokens index
      = Some ` frozensets (same_result same_b) ((\<lambda>(value, index). (f value, index)) ` results)"
    using Some by (simp add: apply_same_def returns_def)
  have direct_run: "apply_same same_c (g \<circ> f) (returns parser) tokens index
      = Some ` frozensets (same_result same_c)
           ((\<lambda>(value, index). ((g \<circ> f) value, index)) ` results)"
    using Some by (simp add: apply_same_def returns_def)
  have outer_run: "apply_same same_c g (apply_same same_b f (returns parser)) tokens index
      = (\<Union>inner \<in> frozensets (same_result same_b) ((\<lambda>(value, index). (f value, index)) ` results).
           Some ` frozensets (same_result same_c) ((\<lambda>(value, index). (g value, index)) ` inner))"
    unfolding apply_same_def [of same_c g] inner_run by simp
  have first: "apply_same same_a (\<lambda>value. value) (returns parser) tokens index \<noteq> {}"
    unfolding id_run using frozensets_nonempty [OF ea] by simp
  have second: "\<forall>outcome \<in> apply_same same_a (\<lambda>value. value) (returns parser) tokens index.
          same_outcome same_a outcome (parser tokens index)"
    unfolding id_run using Some identity_up_to_equality [OF ea]
    by (auto simp: same_outcome_def)
  have third: "apply_same same_c g (apply_same same_b f (returns parser)) tokens index \<noteq> {}"
    unfolding outer_run using frozensets_nonempty [OF eb] frozensets_nonempty [OF ec] by auto
  have fourth: "apply_same same_c (g \<circ> f) (returns parser) tokens index \<noteq> {}"
    unfolding direct_run using frozensets_nonempty [OF ec] by simp
  have fifth: "\<forall>outcome1 \<in> apply_same same_c g (apply_same same_b f (returns parser)) tokens index.
        \<forall>outcome2 \<in> apply_same same_c (g \<circ> f) (returns parser) tokens index.
          same_outcome same_c outcome1 outcome2"
    unfolding outer_run direct_run
    using composition_up_to_equality [OF assms(3) assms(4)]
    by (auto simp: same_outcome_def)
  from first second third fourth fifth show ?thesis by blast
qed

lemma equivp_number_eq: "equivp number_eq"
  by (rule equivpI) (auto simp: reflp_def symp_def transp_def number_eq_def)

theorem apply_functor_laws_up_to_equality_witness:
  "apply_same (=) (\<lambda>value. value) (returns (either (emit CHR ''a'') (emit CHR ''b'')))
       ([] :: char list) 0
      = {Some {(CHR ''a'', 0), (CHR ''b'', 0)}}
   \<and> same_outcome (=) (Some {(CHR ''a'', 0), (CHR ''b'', 0)})
        (either (emit CHR ''a'') (emit CHR ''b'') ([] :: char list) 0)
   \<and> apply_same (=) number_value
        (apply_same number_eq (\<lambda>c. if c = CHR ''a'' then PyInt 1 else PyBool True)
          (returns (either (emit CHR ''a'') (emit CHR ''b'')))) ([] :: char list) 0
      = {Some {(1, 0)}}
   \<and> apply_same (=) (number_value \<circ> (\<lambda>c. if c = CHR ''a'' then PyInt 1 else PyBool True))
        (returns (either (emit CHR ''a'') (emit CHR ''b''))) ([] :: char list) 0
      = {Some {(1, 0)}}
   \<and> same_outcome (=) (Some {(1::int, 0)}) (Some {(1, 0)})"
proof -
  let ?P = "either (emit CHR ''a'') (emit CHR ''b'') :: (char, char) parser"
  let ?f = "\<lambda>c. if c = CHR ''a'' then PyInt 1 else PyBool True"
  have run: "?P [] 0 = Some {(CHR ''a'', 0), (CHR ''b'', 0)}"
    by (auto simp: either_def emit_def apply_parser_def noop_def)
  have pres: "preserves_equality number_eq (=) number_value"
    by (simp add: preserves_equality_def number_eq_def)
  note laws = apply_functor_laws_up_to_equality
    [OF identity_equivp equivp_number_eq identity_equivp pres,
      where parser = ?P and tokens = "[]" and index = 0 and f = ?f]
  have id_run: "apply_same (=) (\<lambda>value. value) (returns ?P) [] 0
      = {Some {(CHR ''a'', 0), (CHR ''b'', 0)}}"
    by (simp add: apply_same_def returns_def run same_result_eq frozensets_eq)
  have "frozensets (same_result number_eq) {(PyInt 1, 0), (PyBool True, 0)}
      = {{(PyInt 1, 0)}, {(PyBool True, 0)}}"
    by (rule frozensets_pair_same) (simp_all add: same_result_simp number_eq_def)
  then have inner: "apply_same number_eq ?f (returns ?P) [] 0
      = {Some {(PyInt 1, 0)}, Some {(PyBool True, 0)}}"
    by (simp add: apply_same_def returns_def run)
  have outer: "apply_same (=) number_value (apply_same number_eq ?f (returns ?P)) [] 0
      = {Some {(1, 0)}}"
    unfolding apply_same_def [of "(=)"] inner
    by (auto simp: same_result_eq frozensets_eq)
  have direct: "apply_same (=) (number_value \<circ> ?f) (returns ?P) [] 0 = {Some {(1, 0)}}"
    by (simp add: apply_same_def returns_def run same_result_eq frozensets_eq)
  from laws id_run have same_id: "same_outcome (=) (Some {(CHR ''a'', 0), (CHR ''b'', 0)}) (?P [] 0)"
    by blast
  from laws outer direct have same_comp: "same_outcome (=) (Some {(1::int, 0)}) (Some {(1, 0)})"
    by blast
  from id_run same_id outer direct same_comp show ?thesis by blast
qed

section \<open>Alternation of a parser with itself\<close>

text \<open>
  On parsers that neither read nor change the state, \<^const>\<open>either_stateful\<close> is
  \<^const>\<open>either\<close>.
\<close>

lemma either_stateful_stateless:
  "either_stateful (stateless parser1) (stateless parser2) = stateless (either parser1 parser2)"
  by (simp add: either_stateful_def stateless_def either_def fun_eq_iff split: option.split)

text \<open>
  Idempotence for every parser fails: \<^const>\<open>fresh_object\<close> creates one object per call,
  \<open>either P P\<close> calls it twice and returns two results, and \<open>P\<close> alone returns one.
\<close>

theorem either_same_parser_counterexample:
  "fresh_object ([] :: char list) 0 0 = (Some {(Object 0, 0)}, 1)
   \<and> either_stateful fresh_object fresh_object ([] :: char list) 0 0
      = (Some {(Object 0, 0), (Object 1, 0)}, 2)
   \<and> fresh_object ([] :: char list) 0 2 = (Some {(Object 2, 0)}, 3)
   \<and> fst (either_stateful fresh_object fresh_object ([] :: char list) 0 0)
      \<noteq> fst (fresh_object ([] :: char list) 0 0)
   \<and> fst (either_stateful fresh_object fresh_object ([] :: char list) 0 0)
      \<noteq> fst (fresh_object ([] :: char list) 0 2)"
  by (auto simp: either_stateful_def fresh_object_def)

text \<open>
  Claim C10, amended. For every parser, token sequence and position, \<open>either P P\<close> returns
  what \<open>P\<close> returns whenever the second call of \<open>P\<close> has the outcome of the first; every
  parser that neither reads nor changes the state is such a parser.
\<close>

theorem either_same_parser:
  "(parser tokens index state = (outcome, state1)
      \<and> fst (parser tokens index state1) = outcome
      \<longrightarrow> fst (either_stateful parser parser tokens index state) = outcome)
   \<and> either_stateful (stateless pure_parser) (stateless pure_parser) tokens index state'
       = (pure_parser tokens index, state')"
proof (intro conjI impI)
  assume calls: "parser tokens index state = (outcome, state1)
      \<and> fst (parser tokens index state1) = outcome"
  show "fst (either_stateful parser parser tokens index state) = outcome"
  proof (cases outcome)
    case None
    with calls show ?thesis by (simp add: either_stateful_def)
  next
    case (Some results)
    with calls obtain state2 where "parser tokens index state1 = (Some results, state2)"
      by (cases "parser tokens index state1") auto
    with calls Some show ?thesis by (simp add: either_stateful_def)
  qed
next
  show "either_stateful (stateless pure_parser) (stateless pure_parser) tokens index state'
       = (pure_parser tokens index, state')"
    by (simp add: either_stateful_def stateless_def split: option.split)
qed

theorem either_same_parser_witness:
  "stateless (consume (\<lambda>c. True)) ''ab'' 0 (0::nat) = (Some {(CHR ''a'', 1)}, 0)
   \<and> fst (either_stateful (stateless (consume (\<lambda>c. True))) (stateless (consume (\<lambda>c. True)))
            ''ab'' 0 (0::nat))
      = Some {(CHR ''a'', 1)}"
proof -
  let ?p = "stateless (consume (\<lambda>c. True)) :: (nat, char, char) stateful_parser"
  have first: "?p ''ab'' 0 0 = (Some {(CHR ''a'', 1)}, 0)"
    by (simp add: stateless_def consume_def getitem_def)
  then have second: "fst (?p ''ab'' 0 0) = Some {(CHR ''a'', 1)}"
    by simp
  from either_same_parser [THEN conjunct1, of ?p "''ab''" 0 0 "Some {(CHR ''a'', 1)}" 0]
    first second
  have "fst (either_stateful ?p ?p ''ab'' 0 0) = Some {(CHR ''a'', 1)}" by blast
  with first show ?thesis by blast
qed

end
